theory Spec2Isabelle
  imports Complex_Main "HOL-Library.Sublist" "HOL-Library.Code_Target_Numeral"
begin

text \<open>
  A shallow embedding of the two web clients of the repository hnqe/research-project (the chat
  widget and the forms of the React client), and of the operations of the retrieval core that
  the clients call, with the properties that its specification states about them.
\<close>

section \<open>Chat widget (chatbot/static/js/app.js)\<close>

subsection \<open>Strings\<close>

text \<open>
  A JavaScript string is modelled as a \<^typ>\<open>string\<close>, one \<^typ>\<open>char\<close> for each code unit;
  code units above \<open>0xFF\<close> are outside the model.  \<^verbatim>\<open>String.prototype.trim\<close> removes white
  space and line terminators at both ends.
\<close>

definition isWhiteSpace :: "char \<Rightarrow> bool" where
  "isWhiteSpace c =
     (c = CHR '' '' \<or> c = CHR 0x09 \<or> c = CHR 0x0A \<or> c = CHR 0x0B \<or> c = CHR 0x0C
      \<or> c = CHR 0x0D \<or> c = CHR 0xA0)"

definition trim :: "string \<Rightarrow> string" where
  "trim s = rev (dropWhile isWhiteSpace (rev (dropWhile isWhiteSpace s)))"

subsection \<open>Rendering a message\<close>

text \<open>
  \<^verbatim>\<open>escapeHtml(text)\<close> writes the text into a text node and reads the serialised markup
  back: the serialisation of a text node replaces \<^verbatim>\<open>&\<close>, \<^verbatim>\<open><\<close>, \<^verbatim>\<open>>\<close> and the no-break space,
  and copies every other character.  The empty string stands for the values that
  \<^verbatim>\<open>text || ''\<close> turns into \<^verbatim>\<open>''\<close>.
\<close>

fun escapeChar :: "char \<Rightarrow> string" where
  "escapeChar c =
     (if c = CHR ''&'' then ''&amp;''
      else if c = CHR ''<'' then ''&lt;''
      else if c = CHR ''>'' then ''&gt;''
      else if c = CHR 0xA0 then ''&nbsp;''
      else [c])"

definition escapeHtml :: "string \<Rightarrow> string" where
  "escapeHtml text = concat (map escapeChar text)"

text \<open>The regular expression atom \<^verbatim>\<open>.\<close> matches every code unit but a line terminator.\<close>

definition isLineTerminator :: "char \<Rightarrow> bool" where
  "isLineTerminator c = (c = CHR 0x0A \<or> c = CHR 0x0D)"

text \<open>
  \<^verbatim>\<open>(.*?)\<close> followed by the literal \<open>d\<close>, matched at the head of the string: the shortest
  run of characters that are no line terminators after which \<open>d\<close> follows.  The result is
  the captured group and the text after the closing \<open>d\<close>; \<open>None\<close> when there is no match.
\<close>

fun lazyUntil :: "string \<Rightarrow> string \<Rightarrow> (string \<times> string) option" where
  "lazyUntil d [] = (if d = [] then Some ([], []) else None)"
| "lazyUntil d (c # cs) =
     (if prefix d (c # cs) then Some ([], drop (length d) (c # cs))
      else if isLineTerminator c then None
      else (case lazyUntil d cs of
              None \<Rightarrow> None
            | Some (g, r) \<Rightarrow> Some (c # g, r)))"

lemma lazyUntil_length: "lazyUntil d s = Some (g, r) \<Longrightarrow> length r \<le> length s"
  by (induction s arbitrary: g) (auto split: if_splits option.splits)

text \<open>
  \<^verbatim>\<open>s.replace(/D(.*?)D/g, 'OPEN$1CLOSE')\<close> for a literal delimiter \<open>D\<close>: the string is
  scanned from the left, a match is replaced and scanning goes on behind it, a character at
  which no match starts is copied.
\<close>

function replaceDelimited :: "string \<Rightarrow> string \<Rightarrow> string \<Rightarrow> string \<Rightarrow> string" where
  "replaceDelimited d opn cls [] = []"
| "replaceDelimited d opn cls (c # cs) =
     (if d \<noteq> [] \<and> prefix d (c # cs) then
        (case lazyUntil d (drop (length d) (c # cs)) of
           Some (g, r) \<Rightarrow> opn @ g @ cls @ replaceDelimited d opn cls r
         | None \<Rightarrow> c # replaceDelimited d opn cls cs)
      else c # replaceDelimited d opn cls cs)"
  by pat_completeness auto
termination
proof (relation "measure (\<lambda>(d, opn, cls, s). length s)")
  fix d opn cls :: string and c cs x2 g r
  assume "d \<noteq> [] \<and> prefix d (c # cs)"
    and "lazyUntil d (drop (length d) (c # cs)) = Some x2" and "(g, r) = x2"
  then have "length r \<le> length (drop (length d) (c # cs))" and "d \<noteq> []"
    using lazyUntil_length [of d "drop (length d) (c # cs)" g r] by auto
  then show "((d, opn, cls, r), (d, opn, cls, c # cs)) \<in> measure (\<lambda>(d, opn, cls, s). length s)"
    by (cases d) auto
qed simp_all

text \<open>\<^verbatim>\<open>.replace(/\*\*(.*?)\*\*/g, '<strong>$1</strong>')\<close>\<close>

definition replaceBold :: "string \<Rightarrow> string" where
  "replaceBold = replaceDelimited ''**'' ''<strong>'' ''</strong>''"

text \<open>\<^verbatim>\<open>.replace(/\*(.*?)\*/g, '<em>$1</em>')\<close>\<close>

definition replaceItalic :: "string \<Rightarrow> string" where
  "replaceItalic = replaceDelimited ''*'' ''<em>'' ''</em>''"

text \<open>
  \<^verbatim>\<open>.replace(/`([^`]+)`/g, '<code>$1</code>')\<close>: a backquote, one or more characters that
  are no backquote (line terminators included), and a backquote.
\<close>

function replaceCode :: "string \<Rightarrow> string" where
  "replaceCode [] = []"
| "replaceCode (c # cs) =
     (if c = CHR 0x60 \<and> takeWhile (\<lambda>x. x \<noteq> CHR 0x60) cs \<noteq> []
         \<and> dropWhile (\<lambda>x. x \<noteq> CHR 0x60) cs \<noteq> []
      then ''<code>'' @ takeWhile (\<lambda>x. x \<noteq> CHR 0x60) cs @ ''</code>''
             @ replaceCode (tl (dropWhile (\<lambda>x. x \<noteq> CHR 0x60) cs))
      else c # replaceCode cs)"
  by pat_completeness auto
termination
proof (relation "measure length")
  fix c :: char and cs :: string
  have "length (tl (dropWhile (\<lambda>x. x \<noteq> CHR 0x60) cs)) \<le> length cs"
    using length_dropWhile_le [of "\<lambda>x. x \<noteq> CHR 0x60" cs] by simp
  then show "(tl (dropWhile (\<lambda>x. x \<noteq> CHR 0x60) cs), c # cs) \<in> measure length"
    by simp
qed simp_all

text \<open>\<^verbatim>\<open>.replace(/\n/g, '<br>')\<close>\<close>

definition replaceNewline :: "string \<Rightarrow> string" where
  "replaceNewline s = concat (map (\<lambda>c. if c = CHR 0x0A then ''<br>'' else [c]) s)"

definition formatMessage :: "string \<Rightarrow> string" where
  "formatMessage content =
     replaceNewline (replaceCode (replaceItalic (replaceBold (escapeHtml content))))"

text \<open>
  The tags that \<^verbatim>\<open>formatMessage\<close> writes, and the strings in which every \<^verbatim>\<open><\<close> and every
  \<^verbatim>\<open>>\<close> belongs to one of these tags: such a string is a sequence of characters other than
  \<^verbatim>\<open><\<close> and \<^verbatim>\<open>>\<close> and of whole tags of the list.
\<close>

definition markupTags :: "string list" where
  "markupTags = [''<strong>'', ''</strong>'', ''<em>'', ''</em>'', ''<code>'', ''</code>'', ''<br>'']"

inductive safeMarkup :: "string \<Rightarrow> bool" where
  Nil: "safeMarkup []"
| Char: "c \<noteq> CHR ''<'' \<Longrightarrow> c \<noteq> CHR ''>'' \<Longrightarrow> safeMarkup s \<Longrightarrow> safeMarkup (c # s)"
| Tag: "t \<in> set markupTags \<Longrightarrow> safeMarkup s \<Longrightarrow> safeMarkup (t @ s)"

text \<open>The characters that the substitutions look for; none of them occurs in a tag.\<close>

definition delimiterChar :: "char \<Rightarrow> bool" where
  "delimiterChar c = (c = CHR ''*'' \<or> c = CHR 0x60 \<or> c = CHR 0x0A)"

subsection \<open>Configuration and conversation history\<close>

text \<open>
  \<^verbatim>\<open>CONFIG\<close> of app.js.  \<^verbatim>\<open>API_BASE\<close> is the origin of the page and plays no part in
  the functions below.  \<^verbatim>\<open>HISTORY_LIMIT\<close> is commented in the source as the maximum number of
  history pairs (user + bot).
\<close>

definition MAX_MESSAGE_LENGTH :: int where
  "MAX_MESSAGE_LENGTH = 500"

definition HISTORY_LIMIT :: int where
  "HISTORY_LIMIT = 10"

text \<open>An entry of \<^verbatim>\<open>state.history\<close>: the object \<^verbatim>\<open>{ role, content }\<close>.\<close>

record turn =
  role :: string
  content :: string

text \<open>
  \<^verbatim>\<open>Array.prototype.slice(start)\<close> with one argument: a negative start counts from the
  end and is clamped at the first element, a start past the end gives the empty array.
\<close>

definition slice :: "'a list \<Rightarrow> int \<Rightarrow> 'a list" where
  "slice xs start =
     (let len = int (length xs);
          k = (if start < 0 then max (len + start) 0 else min start len)
      in drop (nat k) xs)"

text \<open>
  \<^verbatim>\<open>addToHistory(role, content)\<close>: push, then cut to the last \<^verbatim>\<open>HISTORY_LIMIT * 2\<close> entries
  when the array has grown past that length.  The call of \<^verbatim>\<open>saveHistory\<close> copies the array to
  local storage and leaves \<^verbatim>\<open>state.history\<close> as it is.
\<close>

definition addToHistory :: "string \<Rightarrow> string \<Rightarrow> turn list \<Rightarrow> turn list" where
  "addToHistory r c h =
     (let h1 = h @ [\<lparr>role = r, content = c\<rparr>]
      in if int (length h1) > HISTORY_LIMIT * 2 then slice h1 (- HISTORY_LIMIT * 2) else h1)"

text \<open>A session that appends the given turns one after the other, from the history \<open>h\<close>.\<close>

fun appendTurns :: "turn list \<Rightarrow> turn list \<Rightarrow> turn list" where
  "appendTurns h [] = h"
| "appendTurns h (t # ts) = appendTurns (addToHistory (role t) (content t) h) ts"

subsection \<open>Sending a message\<close>

text \<open>
  The JSON body that \<^verbatim>\<open>sendMessageToAPI(message, history)\<close> posts to \<^verbatim>\<open>/chat\<close>:
  \<^verbatim>\<open>{ message, history: history.slice(-CONFIG.HISTORY_LIMIT), k: 5 }\<close>.
\<close>

record chat_request =
  body_message :: string
  body_history :: "turn list"
  body_k :: nat

definition sendMessageToAPI :: "string \<Rightarrow> turn list \<Rightarrow> chat_request" where
  "sendMessageToAPI message h =
     \<lparr>body_message = message, body_history = slice h (- HISTORY_LIMIT), body_k = 5\<rparr>"

text \<open>
  How the awaited call ends: the promise resolves with the parsed response, of which
  \<^verbatim>\<open>response.answer\<close> is read (\<open>None\<close> when the field is missing), or it is rejected (network
  failure, a status that is not ok, a body that is no JSON) with an error message.
\<close>

datatype api_result = Resolved "string option" | Rejected string

text \<open>
  The state of the page that the chat functions read and write: \<^verbatim>\<open>state.history\<close>,
  \<^verbatim>\<open>state.isLoading\<close>, the value of the message input, every request posted so far and the
  requests that still await their response.
\<close>

record chat_state =
  history :: "turn list"
  isLoading :: bool
  messageInput :: string
  sent :: "chat_request list"
  inflight :: "chat_request list"

text \<open>
  \<^verbatim>\<open>handleFormSubmit\<close> up to its \<^verbatim>\<open>await\<close>: the guard, the loading flag, the user turn, the
  cleared input and the posted request, which carries the history with the new user turn.
\<close>

definition handleFormSubmit :: "chat_state \<Rightarrow> chat_state" where
  "handleFormSubmit st =
     (let message = trim (messageInput st) in
      if message = [] \<or> isLoading st then st
      else
        (let h = addToHistory ''user'' message (history st);
             request = sendMessageToAPI message h
         in st\<lparr>history := h, isLoading := True, messageInput := [],
                sent := sent st @ [request], inflight := inflight st @ [request]\<rparr>))"

text \<open>
  \<^verbatim>\<open>handleFormSubmit\<close> after its \<^verbatim>\<open>await\<close>, for the request at the head of the pending ones:
  an answer that is truthy (present and not the empty string) becomes an assistant turn,
  everything else (no answer, a rejected call) only shows an error; the \<^verbatim>\<open>finally\<close> block
  resets the loading flag.
\<close>

definition handleFormSubmit_resume :: "api_result \<Rightarrow> chat_state \<Rightarrow> chat_state" where
  "handleFormSubmit_resume res st =
     (let h = (case res of
                 Resolved None \<Rightarrow> history st
               | Resolved (Some answer) \<Rightarrow>
                   (if answer \<noteq> [] then addToHistory ''assistant'' answer (history st)
                    else history st)
               | Rejected e \<Rightarrow> history st)
      in st\<lparr>history := h, isLoading := False, inflight := tl (inflight st)\<rparr>)"

text \<open>
  What can happen on the page: the user edits the input, submits the form (or presses
  Ctrl+Enter), clicks an example button (the listener writes the question into the input and
  calls \<^verbatim>\<open>handleFormSubmit\<close>), or a pending request comes back.
\<close>

datatype event = Type string | Submit | ExampleClick string | Settle api_result

fun step :: "chat_state \<Rightarrow> event \<Rightarrow> chat_state" where
  "step st (Type v) = st\<lparr>messageInput := v\<rparr>"
| "step st Submit = handleFormSubmit st"
| "step st (ExampleClick q) = handleFormSubmit (st\<lparr>messageInput := q\<rparr>)"
| "step st (Settle res) = (if inflight st = [] then st else handleFormSubmit_resume res st)"

text \<open>The page after \<^verbatim>\<open>init\<close>, with the history that \<^verbatim>\<open>loadHistory\<close> found in local storage.\<close>

definition init :: "turn list \<Rightarrow> chat_state" where
  "init h = \<lparr>history = h, isLoading = False, messageInput = [], sent = [], inflight = []\<rparr>"

definition run :: "turn list \<Rightarrow> event list \<Rightarrow> chat_state" where
  "run h evs = foldl step (init h) evs"

text \<open>
  "Each user turn is followed by its assistant turn", as a test on a history: the entry after
  a user turn exists and is an assistant turn.
\<close>

fun userTurnsAnswered :: "turn list \<Rightarrow> bool" where
  "userTurnsAnswered [] = True"
| "userTurnsAnswered [t] = (role t \<noteq> ''user'')"
| "userTurnsAnswered (t # u # ts) =
     ((if role t = ''user'' then role u = ''assistant'' else True) \<and> userTurnsAnswered (u # ts))"

text \<open>
  The invariant of the page: while the loading flag is set exactly one request is pending and
  the history ends with the user turn of that request; otherwise nothing is pending.
\<close>

definition serialized :: "chat_state \<Rightarrow> bool" where
  "serialized st =
     (if isLoading st
      then length (inflight st) = 1 \<and> history st \<noteq> []
           \<and> last (history st) = \<lparr>role = ''user'', content = body_message (hd (inflight st))\<rparr>
      else inflight st = [])"

section \<open>Forms of the web client (mvp/frontend/src/components)\<close>

subsection \<open>Numbers\<close>

text \<open>
  A JavaScript number: not-a-number, the two infinities, or a finite double, which is kept
  as the rational number it stands for (the two zeros are one value: the forms only compare
  a number and test it for being zero or not-a-number, and a negative zero behaves there as
  zero).
\<close>

datatype jsnum = NaN | NegInf | Fin rat | PosInf

text \<open>The operators \<^verbatim>\<open><\<close> and \<^verbatim>\<open>>\<close>: every comparison with not-a-number is false.\<close>

fun js_lt :: "jsnum \<Rightarrow> jsnum \<Rightarrow> bool" where
  "js_lt NaN y = False"
| "js_lt x NaN = False"
| "js_lt NegInf NegInf = False"
| "js_lt NegInf y = True"
| "js_lt (Fin a) (Fin b) = (a < b)"
| "js_lt (Fin a) PosInf = True"
| "js_lt (Fin a) NegInf = False"
| "js_lt PosInf y = False"

definition js_gt :: "jsnum \<Rightarrow> jsnum \<Rightarrow> bool" where
  "js_gt x y = js_lt y x"

text \<open>\<^verbatim>\<open>x || d\<close> on numbers: zero and not-a-number are falsy.\<close>

fun truthyNum :: "jsnum \<Rightarrow> bool" where
  "truthyNum NaN = False"
| "truthyNum (Fin a) = (a \<noteq> 0)"
| "truthyNum NegInf = True"
| "truthyNum PosInf = True"

definition orElse :: "jsnum \<Rightarrow> jsnum \<Rightarrow> jsnum" where
  "orElse x d = (if truthyNum x then x else d)"


subsection \<open>Rounding to a double\<close>

text \<open>
  The Number value for a mathematical value: the nearest double, a tie going to the double
  with the even significand, and an infinity when the rounded value reaches \<open>2 ^ 1024\<close>.  The
  finite doubles are the numbers \<open>n * 2 ^ k\<close> with \<open>\<bar>n\<bar> \<le> 2 ^ 53\<close> and \<open>k\<close> from \<open>-1074\<close> to \<open>971\<close>; a
  value is rounded at the least such \<open>k\<close> for which it is below \<open>2 ^ (53 + k)\<close>.
\<close>

definition pow2 :: "int \<Rightarrow> rat" where
  "pow2 k = (if 0 \<le> k then 2 ^ nat k else 1 / 2 ^ nat (- k))"

definition roundHalfEven :: "rat \<Rightarrow> int" where
  "roundHalfEven x =
     (let f = \<lfloor>x\<rfloor>; d = x - of_int f in
      if d < 1 / 2 then f
      else if 1 / 2 < d then f + 1
      else if even f then f
      else f + 1)"

definition toNumber :: "rat \<Rightarrow> jsnum" where
  "toNumber q =
     (if q = 0 then Fin 0
      else
        (case List.find (\<lambda>j. \<bar>q\<bar> < pow2 (int j - 1021)) [0..<2046] of
           None \<Rightarrow> (if q < 0 then NegInf else PosInf)
         | Some j \<Rightarrow>
             (let k = int j - 1074;
                  v = of_int (roundHalfEven (\<bar>q\<bar> / pow2 k)) * pow2 k
              in if pow2 1024 \<le> v then (if q < 0 then NegInf else PosInf)
                 else if q < 0 then Fin (- v)
                 else Fin v)))"

subsection \<open>parseInt and parseFloat\<close>

text \<open>The value of a character as a digit: \<^verbatim>\<open>0-9\<close>, then the letters in either case.\<close>

definition digitOf :: "char \<Rightarrow> nat option" where
  "digitOf c =
     (let n = (of_char c :: nat) in
      if 48 \<le> n \<and> n \<le> 57 then Some (n - 48)
      else if 97 \<le> n \<and> n \<le> 122 then Some (n - 87)
      else if 65 \<le> n \<and> n \<le> 90 then Some (n - 55)
      else None)"

definition isRadixDigit :: "nat \<Rightarrow> char \<Rightarrow> bool" where
  "isRadixDigit R c = (case digitOf c of None \<Rightarrow> False | Some v \<Rightarrow> v < R)"

definition isDecimalDigit :: "char \<Rightarrow> bool" where
  "isDecimalDigit c = isRadixDigit 10 c"

definition digitsValue :: "nat \<Rightarrow> string \<Rightarrow> nat" where
  "digitsValue R ds =
     foldl (\<lambda>acc c. acc * R + (case digitOf c of None \<Rightarrow> 0 | Some v \<Rightarrow> v)) 0 ds"

text \<open>An optional sign at the head of a string, and the string behind it.\<close>

definition isNegative :: "string \<Rightarrow> bool" where
  "isNegative s = (case s of [] \<Rightarrow> False | c # cs \<Rightarrow> c = CHR ''-'')"

definition dropSign :: "string \<Rightarrow> string" where
  "dropSign s = (case s of [] \<Rightarrow> [] | c # cs \<Rightarrow> if c = CHR ''+'' \<or> c = CHR ''-'' then cs else s)"

text \<open>
  \<^verbatim>\<open>parseInt(string)\<close> without a radix: leading white space is skipped, a sign is read, the
  prefix \<^verbatim>\<open>0x\<close> or \<^verbatim>\<open>0X\<close> selects radix 16, and the longest run of digits of the radix is
  the value, rounded to a double; the result is not-a-number when that run is empty.
\<close>

definition parseInt :: "string \<Rightarrow> jsnum" where
  "parseInt string =
     (let S = dropWhile isWhiteSpace string;
          S1 = dropSign S;
          hex = (take 2 S1 = ''0x'' \<or> take 2 S1 = ''0X'');
          R = (if hex then 16 else 10);
          S2 = (if hex then drop 2 S1 else S1);
          Z = takeWhile (isRadixDigit R) S2
      in if Z = [] then NaN
         else if isNegative S then toNumber (- of_nat (digitsValue R Z))
         else toNumber (of_nat (digitsValue R Z)))"

text \<open>
  The exponent part \<^verbatim>\<open>e\<close> or \<^verbatim>\<open>E\<close>, an optional sign and one or more digits, at the head of
  a string; 0 when there is none.
\<close>

definition exponentPart :: "string \<Rightarrow> int" where
  "exponentPart s =
     (case s of
        [] \<Rightarrow> 0
      | c # cs \<Rightarrow>
          if c = CHR ''e'' \<or> c = CHR ''E'' then
            (let ds = takeWhile isDecimalDigit (dropSign cs) in
             if ds = [] then 0
             else if isNegative cs then - int (digitsValue 10 ds)
             else int (digitsValue 10 ds))
          else 0)"

definition scale10 :: "rat \<Rightarrow> int \<Rightarrow> rat" where
  "scale10 m e = (if 0 \<le> e then m * 10 ^ nat e else m / 10 ^ nat (- e))"

text \<open>
  \<^verbatim>\<open>parseFloat(string)\<close>: leading white space is skipped and the longest prefix that is a
  decimal literal is the value, rounded to a double: a sign, then \<^verbatim>\<open>Infinity\<close> or digits with
  an optional fraction and an optional exponent; not-a-number when no prefix is such a
  literal.
\<close>

definition parseFloat :: "string \<Rightarrow> jsnum" where
  "parseFloat string =
     (let S = dropWhile isWhiteSpace string;
          S1 = dropSign S
      in if prefix ''Infinity'' S1 then (if isNegative S then NegInf else PosInf)
         else
          (let ip = takeWhile isDecimalDigit S1;
               r1 = dropWhile isDecimalDigit S1;
               dot = (case r1 of [] \<Rightarrow> False | c # cs \<Rightarrow> c = CHR ''.'');
               fp = (if dot then takeWhile isDecimalDigit (tl r1) else []);
               r2 = (if dot then dropWhile isDecimalDigit (tl r1) else r1);
               m = of_nat (digitsValue 10 (ip @ fp)) / 10 ^ length fp;
               v = scale10 m (exponentPart r2)
           in if ip = [] \<and> fp = [] then NaN
              else if isNegative S then toNumber (- v)
              else toNumber v))"

subsection \<open>Number inputs\<close>

text \<open>
  The fields for \<^verbatim>\<open>top_k\<close> and \<^verbatim>\<open>min_score\<close> are \<^verbatim>\<open><Input type="number" ...>\<close>, which the
  \<^verbatim>\<open>Input\<close> component passes on to an \<^verbatim>\<open>input\<close> element.  The value that an element of this
  type hands to its change handler is sanitised by the browser: it is the entered text when
  that is a valid floating-point number of HTML (an optional \<^verbatim>\<open>-\<close>, digits and/or a fraction
  of a dot and digits, an optional exponent), and the empty string otherwise.
\<close>

definition validExponent :: "string \<Rightarrow> bool" where
  "validExponent s =
     (case s of
        [] \<Rightarrow> True
      | c # cs \<Rightarrow>
          (c = CHR ''e'' \<or> c = CHR ''E'')
          \<and> takeWhile isDecimalDigit (dropSign cs) \<noteq> []
          \<and> dropWhile isDecimalDigit (dropSign cs) = [])"

definition validFloatingPointNumber :: "string \<Rightarrow> bool" where
  "validFloatingPointNumber s =
     (let s1 = (if isNegative s then tl s else s);
          ip = takeWhile isDecimalDigit s1;
          r1 = dropWhile isDecimalDigit s1;
          dot = (case r1 of [] \<Rightarrow> False | c # cs \<Rightarrow> c = CHR ''.'');
          fp = (if dot then takeWhile isDecimalDigit (tl r1) else []);
          r2 = (if dot then dropWhile isDecimalDigit (tl r1) else r1)
      in (if dot then fp \<noteq> [] else ip \<noteq> []) \<and> validExponent r2)"

definition numberInputValue :: "string \<Rightarrow> string" where
  "numberInputValue entered = (if validFloatingPointNumber entered then entered else [])"

subsection \<open>Appeal analysis form (AppealAnalysis.jsx)\<close>

text \<open>
  The state \<^verbatim>\<open>formData\<close>; the field \<^verbatim>\<open>text\<close> of the source is \<open>appeal_text\<close> here.  The
  \<^verbatim>\<open>name\<close> attributes of the four controls that call \<^verbatim>\<open>handleInputChange\<close> are the values of
  \<open>field\<close>.
\<close>

record formData =
  appeal_text :: string
  top_k :: jsnum
  instance_filter :: string
  min_score :: jsnum

datatype field = Text | TopK | InstanceFilter | MinScore

definition initialFormData :: formData where
  "initialFormData = \<lparr>appeal_text = [], top_k = Fin 10, instance_filter = [], min_score = Fin 0\<rparr>"

text \<open>
  The messages that \<^verbatim>\<open>validateForm\<close> can attach to the text (required; at least 10
  characters; at most 5000 characters), and the object \<^verbatim>\<open>errors\<close>: for \<^verbatim>\<open>top_k\<close> and
  \<^verbatim>\<open>min_score\<close> there is one message each, so a flag records its presence.
\<close>

datatype text_error = TextRequired | TextTooShort | TextTooLong

record form_errors =
  err_text :: "text_error option"
  err_top_k :: bool
  err_min_score :: bool


text \<open>The object \<^verbatim>\<open>newErrors\<close> that \<^verbatim>\<open>validateForm\<close> builds and stores with \<^verbatim>\<open>setErrors\<close>.\<close>

definition validateForm :: "formData \<Rightarrow> form_errors" where
  "validateForm fd =
     \<lparr>err_text =
        (if trim (appeal_text fd) = [] then Some TextRequired
         else if length (appeal_text fd) < 10 then Some TextTooShort
         else if length (appeal_text fd) > 5000 then Some TextTooLong
         else None),
      err_top_k = (js_lt (top_k fd) (Fin 1) \<or> js_gt (top_k fd) (Fin 50)),
      err_min_score = (js_lt (min_score fd) (Fin 0) \<or> js_gt (min_score fd) (Fin 1))\<rparr>"

text \<open>The updater that \<^verbatim>\<open>handleInputChange\<close> passes to \<^verbatim>\<open>setFormData\<close>.\<close>

fun changeField :: "field \<Rightarrow> string \<Rightarrow> formData \<Rightarrow> formData" where
  "changeField Text v fd = fd\<lparr>appeal_text := v\<rparr>"
| "changeField TopK v fd = fd\<lparr>top_k := orElse (parseInt v) (Fin 1)\<rparr>"
| "changeField InstanceFilter v fd = fd\<lparr>instance_filter := v\<rparr>"
| "changeField MinScore v fd = fd\<lparr>min_score := orElse (parseFloat v) (Fin 0)\<rparr>"

text \<open>\<^verbatim>\<open>setErrors(prev => ({ ...prev, [name]: null }))\<close>, done when \<^verbatim>\<open>errors[name]\<close> is set.\<close>

fun clearError :: "field \<Rightarrow> form_errors \<Rightarrow> form_errors" where
  "clearError Text e = e\<lparr>err_text := None\<rparr>"
| "clearError TopK e = e\<lparr>err_top_k := False\<rparr>"
| "clearError InstanceFilter e = e"
| "clearError MinScore e = e\<lparr>err_min_score := False\<rparr>"

text \<open>
  The requests of the form to the API service, the notifications it raises, and the ways
  a request ends: with the data of the response, or with an error that carries the status
  of a response if there was one.
\<close>

datatype api_call = AnalyzeAppeal formData | AnalyzeAppealWithDraft formData

datatype toast =
  FixFormErrors | AnalysisDone | AnalysisWithDraftDone | NoSimilarAppeal
  | DraftUnavailable | AnalysisFailed

datatype 'r http_result = HttpOk 'r | HttpFailure "nat option"

text \<open>The state of the component, with the requests made and the notifications raised.\<close>

record 'r analysis_state =
  formData :: formData
  results :: "'r option"
  loading :: bool
  includeDraft :: bool
  errors :: form_errors
  api_calls :: "api_call list"
  toasts :: "toast list"

definition handleInputChange :: "field \<Rightarrow> string \<Rightarrow> 'r analysis_state \<Rightarrow> 'r analysis_state" where
  "handleInputChange name v st =
     st\<lparr>formData := changeField name v (formData st), errors := clearError name (errors st)\<rparr>"


text \<open>\<^verbatim>\<open>handleSubmit\<close> after its \<^verbatim>\<open>await\<close>; \<open>draft\<close> is the value of \<^verbatim>\<open>includeDraft\<close> at the call.\<close>

definition handleSubmit_resume :: "bool \<Rightarrow> 'r http_result \<Rightarrow> 'r analysis_state \<Rightarrow> 'r analysis_state" where
  "handleSubmit_resume draft res st =
     (case res of
        HttpOk r \<Rightarrow>
          st\<lparr>results := Some r, loading := False,
             toasts := toasts st @ [if draft then AnalysisWithDraftDone else AnalysisDone]\<rparr>
      | HttpFailure status \<Rightarrow>
          if status = Some 404 then st\<lparr>loading := False, toasts := toasts st @ [NoSimilarAppeal]\<rparr>
          else if status = Some 501
          then st\<lparr>loading := False, includeDraft := False, toasts := toasts st @ [DraftUnavailable]\<rparr>
          else st\<lparr>loading := False, toasts := toasts st @ [AnalysisFailed]\<rparr>)"



subsection \<open>Expandable text (AppealAnalysis.jsx, AppealSearch.jsx)\<close>

text \<open>
  What \<^verbatim>\<open>renderExpandableText\<close> returns: the text in the \<^verbatim>\<open>span\<close>, and the label of the button
  if there is one.  The function has the same body in both components; the default of
  \<^verbatim>\<open>maxLength\<close> is 300 in one and 500 in the other, and every call passes the bound.
  \<^verbatim>\<open>expandedResponses\<close> maps the key of an entry to a flag; a missing key is falsy.
\<close>

datatype toggle = VerMais | VerMenos

record rendering =
  shown :: string
  button :: "toggle option"

definition isExpanded :: "(string \<rightharpoonup> bool) \<Rightarrow> string \<Rightarrow> bool" where
  "isExpanded expandedResponses appealId = (expandedResponses appealId = Some True)"

definition renderExpandableText :: "(string \<rightharpoonup> bool) \<Rightarrow> string \<Rightarrow> string \<Rightarrow> nat \<Rightarrow> rendering" where
  "renderExpandableText expandedResponses txt appealId maxLength =
     (let shouldTruncate = length txt > maxLength in
      if \<not> shouldTruncate then \<lparr>shown = txt, button = None\<rparr>
      else if isExpanded expandedResponses appealId
      then \<lparr>shown = txt, button = Some VerMenos\<rparr>
      else \<lparr>shown = take maxLength txt @ ''...'', button = Some VerMais\<rparr>)"

definition toggleResponseExpansion :: "string \<Rightarrow> (string \<rightharpoonup> bool) \<Rightarrow> (string \<rightharpoonup> bool)" where
  "toggleResponseExpansion appealId prev = prev(appealId \<mapsto> \<not> isExpanded prev appealId)"

text \<open>
  The details of a request in ProtocolSearch.jsx:
  \<^verbatim>\<open>details.length > 500 ? `${details.substring(0, 500)}...` : details\<close>.
\<close>

definition renderDetails :: "string \<Rightarrow> string" where
  "renderDetails details = (if length details > 500 then take 500 details @ ''...'' else details)"

subsection \<open>Search by protocol (ProtocolSearch.jsx) and by appeal (AppealSearch.jsx)\<close>

text \<open>The change handler of the number of similar records, the same in both components.\<close>

definition setTopK_onChange :: "string \<Rightarrow> jsnum" where
  "setTopK_onChange v = orElse (parseInt v) (Fin 5)"








section \<open>Retrieval core behind the API\<close>

text \<open>
  The server that answers the requests of the two clients belongs to the repository, but its
  code is not among the source files: every definition of this section is written from the
  specification of the retrieval core, section by section.
\<close>

subsection \<open>Records and hits\<close>

text \<open>
  Modelled from the spec: the data model of section 3 (the decision labels, requests, appeals,
  retrieval hits) and the error taxonomy of section 7; the server code that declares them is
  not among the sources.  A retrieval hit is the record with its similarity score, the rank
  being the position in a list.
\<close>

datatype decision = Granted | Denied | PartiallyGranted | NotKnown | Moot

definition allDecisions :: "decision list" where
  "allDecisions = [Granted, Denied, PartiallyGranted, NotKnown, Moot]"

record request =
  request_id :: nat
  protocol :: string
  summary :: string
  request_responseText :: string
  agency :: string
  filingDate :: string

record appeal =
  appeal_id :: nat
  decision :: decision
  appeal_instance :: string
  description :: string
  appeal_responseText :: string
  relatedProtocol :: "string option"

record 'a hit =
  hit_record :: 'a
  similarityScore :: rat

datatype core_error = NotFound | InsufficientEvidence | MalformedQuery

subsection \<open>Lookup by protocol\<close>









subsection \<open>Outcome aggregator\<close>

text \<open>
  Modelled from the spec: \<open>DecisionStats\<close> of section 3, the count of a label among the hits, and
  the prediction of section 4.5 (the server code is not among the sources): the label with
  the highest count, the earlier label of the priority order winning a tie.  The
  specification says that there is a fixed order and not which; the order of its list of
  labels is taken.
\<close>

record decision_stats =
  stats :: "(decision \<times> nat \<times> rat) list"
  predictedLabel :: decision

definition countLabel :: "decision \<Rightarrow> appeal hit list \<Rightarrow> nat" where
  "countLabel l hits = length (filter (\<lambda>h. decision (hit_record h) = l) hits)"

definition mostFrequent :: "appeal hit list \<Rightarrow> decision" where
  "mostFrequent hits =
     foldl (\<lambda>best l. if countLabel l hits > countLabel best hits then l else best)
       Granted allDecisions"

text \<open>
  Modelled from the spec: \<open>aggregate\<close> of the outcome aggregator (section 4.5), which is not
  among the sources.  It counts the occurrences of each decision label among the hits, gives
  each label that occurs the percentage \<open>100 * count / total\<close>, omits the labels that do not
  occur, and fails with \<open>InsufficientEvidence\<close> on no hits.  Percentages are exact rationals.
\<close>

definition aggregate :: "appeal hit list \<Rightarrow> core_error + decision_stats" where
  "aggregate hits =
     (if hits = [] then Inl InsufficientEvidence
      else Inr
        \<lparr>stats =
           map (\<lambda>l. (l, countLabel l hits, 100 * of_nat (countLabel l hits) / of_nat (length hits)))
             (filter (\<lambda>l. countLabel l hits > 0) allDecisions),
         predictedLabel = mostFrequent hits\<rparr>)"

text \<open>The percentages of the statistics, in the order of the labels.\<close>

definition percentages :: "decision_stats \<Rightarrow> rat list" where
  "percentages ds = map (\<lambda>(l, c, p). p) (stats ds)"

subsection \<open>Cross-reference joiner\<close>

text \<open>
  Modelled from the spec: what the joiner of section 4.4, which is not among the sources,
  works with: the search on the index of requests for the embedded topic
  (given the number of hits and the least score), the appeals of the other index, whether the
  appeals carry the explicit link \<open>relatedProtocol\<close>, the semantic search on the appeals
  seeded by the text of a request, and the parameters that the specification leaves open: the
  factor by which the candidate set is wider than the answer, the two thresholds and the
  combined score of a pair.
\<close>

record joiner =
  searchRequests :: "nat \<Rightarrow> rat \<Rightarrow> request hit list"
  appeals :: "appeal hit list"
  explicitLinks :: bool
  searchAppeals :: "request \<Rightarrow> appeal hit list"
  widen :: nat
  moderateMinScore :: rat
  strictMinScore :: rat
  combinedScore :: "request hit \<Rightarrow> appeal hit list \<Rightarrow> rat"

text \<open>
  Modelled from the spec: step 3 of the joiner (section 4.4), which is not among the sources.
  The appeals linked to a candidate request: those whose \<open>relatedProtocol\<close> is its protocol,
  or, without explicit links, the hits of the secondary search above the stricter threshold.
\<close>

definition linkedAppeals :: "joiner \<Rightarrow> request \<Rightarrow> appeal hit list" where
  "linkedAppeals j r =
     (if explicitLinks j
      then filter (\<lambda>a. relatedProtocol (hit_record a) = Some (protocol r)) (appeals j)
      else filter (\<lambda>a. strictMinScore j \<le> similarityScore a) (searchAppeals j r))"

text \<open>
  Modelled from the spec: the joiner (section 4.4, steps 2 to 4), which is not among the
  sources.  The candidates are searched with a wider \<open>topK\<close> and the moderate threshold, each
  is paired with its linked appeals, the requests without a linked appeal are dropped, the
  pairs are ranked by their combined score, highest first and stably, and cut to \<open>topK\<close>.
\<close>

definition crossReference :: "joiner \<Rightarrow> nat \<Rightarrow> (request hit \<times> appeal hit list) list" where
  "crossReference j k =
     (let candidates = searchRequests j (widen j * k) (moderateMinScore j);
          pairs = map (\<lambda>c. (c, linkedAppeals j (hit_record c))) candidates;
          joined = filter (\<lambda>(c, as). as \<noteq> []) pairs;
          ranked = sort_key (\<lambda>(c, as). - combinedScore j c as) joined
      in take k ranked)"

subsection \<open>Scenarios\<close>



text \<open>Scenario A of the specification: three appeals, two denied and one granted.\<close>

definition appealHit :: "nat \<Rightarrow> decision \<Rightarrow> string option \<Rightarrow> rat \<Rightarrow> appeal hit" where
  "appealHit i d p s =
     \<lparr>hit_record = \<lparr>appeal_id = i, decision = d, appeal_instance = ''CGU'', description = [],
                     appeal_responseText = [], relatedProtocol = p\<rparr>,
      similarityScore = s\<rparr>"

definition scenarioA :: "appeal hit list" where
  "scenarioA = [appealHit 1 Denied None (9 / 10), appealHit 2 Denied None (8 / 10),
                appealHit 3 Granted None (7 / 10)]"

text \<open>
  Two requests found for a topic, of which only the second has an appeal linked to it, and a
  second appeal that is linked to no candidate.
\<close>

definition requestHit :: "nat \<Rightarrow> string \<Rightarrow> rat \<Rightarrow> request hit" where
  "requestHit i p s =
     \<lparr>hit_record = \<lparr>request_id = i, protocol = p, summary = [], request_responseText = [],
                     agency = [], filingDate = []\<rparr>,
      similarityScore = s\<rparr>"

definition scenarioJoiner :: joiner where
  "scenarioJoiner =
     \<lparr>searchRequests = (\<lambda>k m. take k [requestHit 1 ''111'' (9 / 10), requestHit 2 ''222'' (8 / 10)]),
      appeals = [appealHit 7 Denied (Some ''222'') (6 / 10), appealHit 8 Granted (Some ''999'') (5 / 10)],
      explicitLinks = True,
      searchAppeals = (\<lambda>r. []),
      widen = 3,
      moderateMinScore = 1 / 2,
      strictMinScore = 7 / 10,
      combinedScore = (\<lambda>c as. (similarityScore c + similarityScore (hd as)) / 2)\<rparr>"

section \<open>Properties of the chat widget\<close>

lemma slice_neg: "n > 0 \<Longrightarrow> slice xs (- n) = drop (length xs - nat n) xs"
  by (auto simp: slice_def Let_def max_def nat_diff_distrib')

lemma addToHistory_drop:
  "addToHistory r c h = drop (length h + 1 - 20) (h @ [\<lparr>role = r, content = c\<rparr>])"
  by (simp add: addToHistory_def Let_def HISTORY_LIMIT_def slice_neg)

lemma turn_eta: "\<lparr>role = role t, content = content t\<rparr> = t"
  by (cases t) simp

lemma appendTurns_Cons:
  "appendTurns h (t # ts) = drop (length (h @ t # ts) - 20) (h @ t # ts)"
proof (induction ts arbitrary: h t)
  case Nil
  show ?case by (simp add: addToHistory_drop)
next
  case (Cons u us)
  have "appendTurns h (t # u # us) = appendTurns (addToHistory (role t) (content t) h) (u # us)"
    by simp
  also have "\<dots> = drop (length (addToHistory (role t) (content t) h @ u # us) - 20)
                      (addToHistory (role t) (content t) h @ u # us)"
    by (rule Cons.IH)
  also have "\<dots> = drop (length (h @ t # u # us) - 20) (h @ t # u # us)"
  proof (cases "length h + 1 \<le> 20")
    case True
    then show ?thesis by (simp add: addToHistory_drop turn_eta)
  next
    case False
    then have "Suc (length us + length h - 19) = length h + length us - 18" by arith
    with False show ?thesis by (simp add: addToHistory_drop turn_eta)
  qed
  finally show ?case .
qed

lemma appendTurns_Nil_start: "appendTurns [] ts = drop (length ts - 20) ts"
  by (cases ts) (simp_all add: appendTurns_Cons del: appendTurns.simps(2))

text \<open>
  C1.  Whatever turns a session appends, the stored history never holds more than the window
  of \<^verbatim>\<open>HISTORY_LIMIT * 2\<close> = 20 entries (\<^verbatim>\<open>HISTORY_LIMIT\<close> pairs of a user and a bot turn), and
  it is exactly the most recent entries in their original order: the oldest are evicted first.
  This holds for a session that starts empty and, after the first append, for a session
  that starts from any loaded history \<open>h\<close>.
\<close>

theorem addToHistory_window:
  "length (appendTurns [] ts) \<le> nat (HISTORY_LIMIT * 2)
   \<and> appendTurns [] ts = drop (length ts - nat (HISTORY_LIMIT * 2)) ts
   \<and> length (appendTurns h (t # ts)) \<le> nat (HISTORY_LIMIT * 2)
   \<and> appendTurns h (t # ts)
       = drop (length (h @ t # ts) - nat (HISTORY_LIMIT * 2)) (h @ t # ts)"
proof -
  have n: "nat (HISTORY_LIMIT * 2) = 20" by (simp add: HISTORY_LIMIT_def)
  have a: "appendTurns [] ts = drop (length ts - 20) ts" by (rule appendTurns_Nil_start)
  have b: "appendTurns h (t # ts) = drop (length (h @ t # ts) - 20) (h @ t # ts)"
    by (rule appendTurns_Cons)
  have "length (drop (length ts - 20) ts) \<le> 20" by simp
  moreover have "length (drop (length (h @ t # ts) - 20) (h @ t # ts)) \<le> 20" by simp
  ultimately show ?thesis unfolding n a b by simp
qed

theorem addToHistory_window_witness:
  "appendTurns [] (replicate 21 \<lparr>role = ''user'', content = ''q''\<rparr> @ [\<lparr>role = ''assistant'', content = ''r''\<rparr>])
   = replicate 19 \<lparr>role = ''user'', content = ''q''\<rparr> @ [\<lparr>role = ''assistant'', content = ''r''\<rparr>]"
  using addToHistory_window [of "replicate 21 \<lparr>role = ''user'', content = ''q''\<rparr> @ [\<lparr>role = ''assistant'', content = ''r''\<rparr>]"]
  by (simp add: HISTORY_LIMIT_def)

text \<open>
  C2.  For every stored history, the history in the body of an outgoing chat request is
  exactly its most recent \<^verbatim>\<open>HISTORY_LIMIT\<close> = 10 turns, in chronological order (all of it when
  it is shorter); the older turns are dropped.  The request that \<^verbatim>\<open>handleFormSubmit\<close> posts is
  built from the stored history to which the new user turn has been appended.
\<close>

theorem sendMessageToAPI_history:
  "body_history (sendMessageToAPI message h) = drop (length h - nat HISTORY_LIMIT) h
   \<and> length (body_history (sendMessageToAPI message h)) \<le> nat HISTORY_LIMIT
   \<and> suffix (body_history (sendMessageToAPI message h)) h
   \<and> (handleFormSubmit st = st
        \<or> (sent (handleFormSubmit st)
             = sent st @ [sendMessageToAPI (trim (messageInput st)) (history (handleFormSubmit st))]
           \<and> body_history (last (sent (handleFormSubmit st)))
             = drop (length (history (handleFormSubmit st)) - nat HISTORY_LIMIT)
                 (history (handleFormSubmit st))))"
proof -
  have "body_history (sendMessageToAPI message h) = drop (length h - nat HISTORY_LIMIT) h"
    by (simp add: sendMessageToAPI_def HISTORY_LIMIT_def slice_neg)
  moreover have "length (body_history (sendMessageToAPI message h)) \<le> nat HISTORY_LIMIT"
    by (simp add: sendMessageToAPI_def HISTORY_LIMIT_def slice_neg)
  moreover have "suffix (body_history (sendMessageToAPI message h)) h"
    by (simp add: sendMessageToAPI_def HISTORY_LIMIT_def slice_neg suffix_drop)
  moreover have "handleFormSubmit st = st
        \<or> (sent (handleFormSubmit st)
             = sent st @ [sendMessageToAPI (trim (messageInput st)) (history (handleFormSubmit st))]
           \<and> body_history (last (sent (handleFormSubmit st)))
             = drop (length (history (handleFormSubmit st)) - nat HISTORY_LIMIT)
                 (history (handleFormSubmit st)))"
    by (simp add: handleFormSubmit_def Let_def sendMessageToAPI_def HISTORY_LIMIT_def slice_neg)
  ultimately show ?thesis by blast
qed

theorem sendMessageToAPI_history_witness:
  "body_history (sendMessageToAPI ''m'' (replicate 12 \<lparr>role = ''user'', content = ''q''\<rparr>))
     = replicate 10 \<lparr>role = ''user'', content = ''q''\<rparr>"
  using sendMessageToAPI_history [of "''m''" "replicate 12 \<lparr>role = ''user'', content = ''q''\<rparr>"]
  by (simp add: HISTORY_LIMIT_def)

lemma last_addToHistory: "last (addToHistory r c h) = \<lparr>role = r, content = c\<rparr>"
  by (simp add: addToHistory_drop last_drop)

lemma addToHistory_not_Nil: "addToHistory r c h \<noteq> []"
  by (simp add: addToHistory_drop)

lemma serialized_init: "serialized (init h)"
  by (simp add: serialized_def init_def)

lemma serialized_handleFormSubmit: "serialized st \<Longrightarrow> serialized (handleFormSubmit st)"
  by (auto simp: serialized_def handleFormSubmit_def Let_def last_addToHistory
      addToHistory_not_Nil sendMessageToAPI_def split: if_splits)

lemma serialized_resume:
  "serialized st \<Longrightarrow> inflight st \<noteq> [] \<Longrightarrow> serialized (handleFormSubmit_resume res st)"
  by (cases "inflight st") (auto simp: serialized_def handleFormSubmit_resume_def Let_def split: if_splits)

lemma serialized_step: "serialized st \<Longrightarrow> serialized (step st e)"
proof (cases e)
  case (Type v)
  assume "serialized st"
  with Type show ?thesis by (simp add: serialized_def)
next
  case Submit
  assume "serialized st"
  with Submit show ?thesis by (simp add: serialized_handleFormSubmit)
next
  case (ExampleClick q)
  assume "serialized st"
  then have "serialized (st\<lparr>messageInput := q\<rparr>)" by (simp add: serialized_def)
  with ExampleClick show ?thesis by (simp add: serialized_handleFormSubmit)
next
  case (Settle res)
  assume "serialized st"
  with Settle show ?thesis by (simp add: serialized_resume)
qed

lemma serialized_foldl: "serialized st \<Longrightarrow> serialized (foldl step st evs)"
  by (induction evs arbitrary: st) (simp_all add: serialized_step)

lemma serialized_run: "serialized (run h evs)"
  by (simp add: run_def serialized_foldl serialized_init)

lemma suffix_addToHistory:
  assumes "h \<noteq> []"
  shows "suffix [last h, \<lparr>role = r, content = c\<rparr>] (addToHistory r c h)"
proof -
  from assms obtain pre u where h: "h = pre @ [u]" by (cases h rule: rev_cases) auto
  have "addToHistory r c h = drop (length pre + 2 - 20) (pre @ [u, \<lparr>role = r, content = c\<rparr>])"
    by (simp add: addToHistory_drop h)
  also have "\<dots> = drop (length pre + 2 - 20) pre @ [u, \<lparr>role = r, content = c\<rparr>]"
    by simp
  finally show ?thesis by (simp add: suffix_def h)
qed

text \<open>
  C5.  In every state the page can reach in which a query awaits its response, there is
  exactly one such query; submitting again (by the form or by an example button) posts no
  request and appends nothing to the history; the history ends with the user turn of the
  pending query.  When the query comes back with an answer, the assistant turn is appended
  directly behind the user turn it answers.  When it is rejected, or comes back with no
  answer or an empty one, the history stays as it is: the user turn is left without an
  assistant turn.  In each case nothing is pending afterwards.
\<close>

theorem handleFormSubmit_one_in_flight:
  assumes "st = run h evs" and "inflight st \<noteq> []"
  shows "length (inflight st) = 1
     \<and> handleFormSubmit st = st
     \<and> step st (ExampleClick q) = st\<lparr>messageInput := q\<rparr>
     \<and> history st \<noteq> []
     \<and> last (history st) = \<lparr>role = ''user'', content = body_message (hd (inflight st))\<rparr>
     \<and> (a \<noteq> [] \<longrightarrow>
          suffix [\<lparr>role = ''user'', content = body_message (hd (inflight st))\<rparr>,
                  \<lparr>role = ''assistant'', content = a\<rparr>]
                 (history (step st (Settle (Resolved (Some a))))))
     \<and> (a \<noteq> [] \<longrightarrow>
          history (step st (Settle (Resolved (Some a))))
            = addToHistory ''assistant'' a (history st))
     \<and> history (step st (Settle (Rejected e))) = history st
     \<and> history (step st (Settle (Resolved None))) = history st
     \<and> history (step st (Settle (Resolved (Some [])))) = history st
     \<and> inflight (step st (Settle res)) = []
     \<and> \<not> isLoading (step st (Settle res))"
proof -
  have inv: "serialized st" using assms(1) by (simp add: serialized_run)
  with assms(2) have l: "isLoading st" by (auto simp: serialized_def split: if_splits)
  with inv have one: "length (inflight st) = 1" and ne: "history st \<noteq> []"
    and lst: "last (history st) = \<lparr>role = ''user'', content = body_message (hd (inflight st))\<rparr>"
    by (simp_all add: serialized_def)
  have same: "handleFormSubmit st = st" using l by (simp add: handleFormSubmit_def Let_def)
  have ex: "step st (ExampleClick q) = st\<lparr>messageInput := q\<rparr>"
    using l by (simp add: handleFormSubmit_def Let_def)
  have ans: "suffix [\<lparr>role = ''user'', content = body_message (hd (inflight st))\<rparr>,
                  \<lparr>role = ''assistant'', content = a\<rparr>]
                 (history (step st (Settle (Resolved (Some a)))))" if "a \<noteq> []"
    using that assms(2) suffix_addToHistory [OF ne, of "''assistant''" a] lst
    by (simp add: handleFormSubmit_resume_def)
  have app: "history (step st (Settle (Resolved (Some a))))
               = addToHistory ''assistant'' a (history st)" if "a \<noteq> []"
    using that assms(2) by (simp add: handleFormSubmit_resume_def)
  have rej: "history (step st (Settle (Rejected e))) = history st"
    using assms(2) by (simp add: handleFormSubmit_resume_def)
  have none: "history (step st (Settle (Resolved None))) = history st"
    using assms(2) by (simp add: handleFormSubmit_resume_def)
  have empty: "history (step st (Settle (Resolved (Some [])))) = history st"
    using assms(2) by (simp add: handleFormSubmit_resume_def)
  from one have tl: "tl (inflight st) = []" by (cases "inflight st") simp_all
  have idle: "inflight (step st (Settle res)) = []" "\<not> isLoading (step st (Settle res))"
    using assms(2) tl by (simp_all add: handleFormSubmit_resume_def Let_def)
  from one same ex ne lst ans app rej none empty idle show ?thesis by blast
qed

theorem handleFormSubmit_one_in_flight_witness:
  "inflight (run [] [Type ''oi'', Submit]) \<noteq> []
   \<and> handleFormSubmit (run [] [Type ''oi'', Submit]) = run [] [Type ''oi'', Submit]
   \<and> history (step (run [] [Type ''oi'', Submit]) (Settle (Resolved (Some ''ola''))))
       = [\<lparr>role = ''user'', content = ''oi''\<rparr>, \<lparr>role = ''assistant'', content = ''ola''\<rparr>]
   \<and> history (step (run [] [Type ''oi'', Submit]) (Settle (Rejected ''timeout'')))
       = [\<lparr>role = ''user'', content = ''oi''\<rparr>]
   \<and> history (step (run [] [Type ''oi'', Submit]) (Settle (Resolved None)))
       = [\<lparr>role = ''user'', content = ''oi''\<rparr>]"
proof -
  have r: "run [] [Type ''oi'', Submit]
     = \<lparr>history = [\<lparr>role = ''user'', content = ''oi''\<rparr>], isLoading = True, messageInput = [],
        sent = [\<lparr>body_message = ''oi'', body_history = [\<lparr>role = ''user'', content = ''oi''\<rparr>], body_k = 5\<rparr>],
        inflight = [\<lparr>body_message = ''oi'', body_history = [\<lparr>role = ''user'', content = ''oi''\<rparr>], body_k = 5\<rparr>]\<rparr>"
    by (simp add: run_def init_def handleFormSubmit_def trim_def isWhiteSpace_def
        addToHistory_def HISTORY_LIMIT_def slice_def sendMessageToAPI_def Let_def)
  have ne: "inflight (run [] [Type ''oi'', Submit]) \<noteq> []" by (simp add: r)
  have h: "history (run [] [Type ''oi'', Submit]) = [\<lparr>role = ''user'', content = ''oi''\<rparr>]"
    by (simp add: r)
  have a: "''ola'' \<noteq> []" by simp
  note t = handleFormSubmit_one_in_flight [OF refl ne, where a = "''ola''" and e = "''timeout''"]
  from t have "handleFormSubmit (run [] [Type ''oi'', Submit]) = run [] [Type ''oi'', Submit]"
    by blast
  moreover from t a
  have "history (step (run [] [Type ''oi'', Submit]) (Settle (Resolved (Some ''ola''))))
       = addToHistory ''assistant'' ''ola'' (history (run [] [Type ''oi'', Submit]))"
    by blast
  then have "history (step (run [] [Type ''oi'', Submit]) (Settle (Resolved (Some ''ola''))))
       = [\<lparr>role = ''user'', content = ''oi''\<rparr>, \<lparr>role = ''assistant'', content = ''ola''\<rparr>]"
    by (simp add: h addToHistory_def HISTORY_LIMIT_def)
  moreover from t
  have "history (step (run [] [Type ''oi'', Submit]) (Settle (Rejected ''timeout'')))
       = history (run [] [Type ''oi'', Submit])"
    and "history (step (run [] [Type ''oi'', Submit]) (Settle (Resolved None)))
       = history (run [] [Type ''oi'', Submit])"
    by blast+
  ultimately show ?thesis using ne h by simp
qed

text \<open>
  That every user turn is followed by its assistant turn does not hold: the first of two
  queries is rejected by the server, the second is answered, and the history is the two user
  turns followed by one assistant turn.
\<close>

theorem userTurnsAnswered_counterexample:
  "\<not> userTurnsAnswered (history (run []
       [Type ''a'', Submit, Settle (Rejected ''HTTP error! status: 500 - ''),
        Type ''b'', Submit, Settle (Resolved (Some ''x''))]))"
  by (simp add: run_def init_def handleFormSubmit_def handleFormSubmit_resume_def trim_def
      isWhiteSpace_def addToHistory_def HISTORY_LIMIT_def slice_def sendMessageToAPI_def Let_def)

subsection \<open>Rendering\<close>

lemma escapeHtml_no_angle: "CHR ''<'' \<notin> set (escapeHtml s) \<and> CHR ''>'' \<notin> set (escapeHtml s)"
  by (induction s) (simp_all add: escapeHtml_def)

lemma safeMarkup_plain: "CHR ''<'' \<notin> set s \<Longrightarrow> CHR ''>'' \<notin> set s \<Longrightarrow> safeMarkup s"
  by (induction s) (auto intro: safeMarkup.intros)

lemma safeMarkup_append: "safeMarkup a \<Longrightarrow> safeMarkup b \<Longrightarrow> safeMarkup (a @ b)"
  by (induction a rule: safeMarkup.induct) (auto intro: safeMarkup.intros)

lemma delimiterChar_not_in_tag: "delimiterChar c \<Longrightarrow> t \<in> set markupTags \<Longrightarrow> c \<notin> set t"
  by (auto simp: delimiterChar_def markupTags_def)

lemma safeMarkup_split1:
  "safeMarkup s \<Longrightarrow> s = a @ c # b \<Longrightarrow> delimiterChar c \<Longrightarrow> safeMarkup a \<and> safeMarkup b"
proof (induction s arbitrary: a rule: safeMarkup.induct)
  case Nil
  then show ?case by simp
next
  case (Char x s)
  show ?case
  proof (cases a)
    case Nil
    with Char show ?thesis by (auto intro: safeMarkup.intros)
  next
    case (Cons y a')
    with Char.prems have "s = a' @ c # b" and "y = x" by simp_all
    with Char.IH [of a'] Char.prems Char.hyps Cons show ?thesis
      by (auto intro: safeMarkup.intros)
  qed
next
  case (Tag t s)
  from Tag.prems(1) obtain us
    where "t = a @ us \<and> us @ s = c # b \<or> t @ us = a \<and> s = us @ c # b"
    by (auto simp: append_eq_append_conv2)
  then consider (left) vs where "t @ vs = a" "s = vs @ c # b"
    | (right) "t = a @ us" "us @ s = c # b" "us \<noteq> []"
    by (cases "us = []") auto
  then show ?case
  proof cases
    case left
    with Tag.IH [of vs] Tag.prems Tag.hyps show ?thesis
      by (auto intro: safeMarkup.intros)
  next
    case right
    then have "c \<in> set t" by (cases us) auto
    with delimiterChar_not_in_tag [OF Tag.prems(2) Tag.hyps(1)] show ?thesis by simp
  qed
qed

lemma safeMarkup_split:
  "d \<noteq> [] \<Longrightarrow> \<forall>c \<in> set d. delimiterChar c \<Longrightarrow> safeMarkup (a @ d @ b)
   \<Longrightarrow> safeMarkup a \<and> safeMarkup b"
proof (induction d arbitrary: a)
  case Nil
  then show ?case by simp
next
  case (Cons c d)
  from Cons.prems have c: "delimiterChar c" by simp
  from safeMarkup_split1 [OF _ _ c, of "a @ c # d @ b" a "d @ b"] Cons.prems(3)
  have a: "safeMarkup a" and rest: "safeMarkup (d @ b)" by simp_all
  show ?case
  proof (cases "d = []")
    case True
    with a rest show ?thesis by simp
  next
    case False
    with Cons.IH [of "[]"] Cons.prems(2) rest have "safeMarkup b" by simp
    with a show ?thesis by simp
  qed
qed

lemma lazyUntil_decomp: "lazyUntil d s = Some (g, r) \<Longrightarrow> s = g @ d @ r"
proof (induction s arbitrary: g)
  case Nil
  then show ?case by (simp split: if_splits)
next
  case (Cons c cs)
  show ?case
  proof (cases "prefix d (c # cs)")
    case True
    with Cons.prems have "g = []" "r = drop (length d) (c # cs)" by simp_all
    moreover from True have "c # cs = d @ drop (length d) (c # cs)"
      by (auto simp: prefix_def)
    ultimately show ?thesis by simp
  next
    case False
    with Cons.prems obtain g' where "lazyUntil d cs = Some (g', r)" "g = c # g'"
      by (auto split: if_splits option.splits)
    with Cons.IH [of g'] show ?thesis by simp
  qed
qed

lemma replaceDelimited_skip:
  "d \<noteq> [] \<Longrightarrow> hd d \<notin> set a
   \<Longrightarrow> replaceDelimited d opn cls (a @ s) = a @ replaceDelimited d opn cls s"
proof (induction a)
  case Nil
  then show ?case by simp
next
  case (Cons x a)
  then have "\<not> prefix d (x # a @ s)" by (cases d) auto
  with Cons show ?case by simp
qed

lemma replaceDelimited_safe:
  assumes d: "d \<noteq> []" "\<forall>c \<in> set d. delimiterChar c"
    and tags: "opn \<in> set markupTags" "cls \<in> set markupTags"
  shows "safeMarkup s \<Longrightarrow> safeMarkup (replaceDelimited d opn cls s)"
proof (induction "length s" arbitrary: s rule: less_induct)
  case less
  from less.prems show ?case
  proof (cases s rule: safeMarkup.cases)
    case Nil
    then show ?thesis by (simp add: safeMarkup.Nil)
  next
    case (Char c s')
    then have rec: "safeMarkup (replaceDelimited d opn cls s')"
      using less.hyps [of s'] by simp
    show ?thesis
    proof (cases "prefix d (c # s')")
      case False
      with Char rec show ?thesis by (simp add: safeMarkup.Char)
    next
      case True
      then have s: "c # s' = d @ drop (length d) (c # s')" by (auto simp: prefix_def)
      show ?thesis
      proof (cases "lazyUntil d (drop (length d) (c # s'))")
        case None
        with True Char rec d show ?thesis by (simp add: safeMarkup.Char)
      next
        case (Some p)
        obtain g r where p: "p = (g, r)" by (cases p)
        from lazyUntil_decomp [of d "drop (length d) (c # s')" g r] Some p
        have dec: "drop (length d) (c # s') = g @ d @ r" by simp
        with s have whole: "c # s' = d @ g @ d @ r" by simp
        from less.prems Char whole have "safeMarkup ([] @ d @ (g @ d @ r))" by simp
        with safeMarkup_split [OF d] have "safeMarkup (g @ d @ r)" by blast
        with safeMarkup_split [OF d] have g: "safeMarkup g" and r: "safeMarkup r" by blast+
        from whole d have "length r < length (c # s')"
          by (metis add_less_cancel_right append.assoc length_append length_greater_0_conv
              less_add_same_cancel2 trans_less_add1 trans_less_add2)
        with less.hyps [of r] r Char have "safeMarkup (replaceDelimited d opn cls r)" by simp
        with tags(2) have "safeMarkup (cls @ replaceDelimited d opn cls r)"
          by (rule safeMarkup.Tag)
        with g have "safeMarkup (g @ cls @ replaceDelimited d opn cls r)"
          by (rule safeMarkup_append)
        with tags(1) have "safeMarkup (opn @ g @ cls @ replaceDelimited d opn cls r)"
          by (rule safeMarkup.Tag)
        with True Some p Char d show ?thesis by simp
      qed
    qed
  next
    case (Tag t s')
    then have "t \<noteq> []" by (auto simp: markupTags_def)
    with Tag have rec: "safeMarkup (replaceDelimited d opn cls s')"
      using less.hyps [of s'] by simp
    from d have "delimiterChar (hd d)" by (cases d) auto
    with Tag have "hd d \<notin> set t" by (simp add: delimiterChar_not_in_tag)
    with Tag rec d show ?thesis
      by (simp add: replaceDelimited_skip safeMarkup.Tag)
  qed
qed

lemma replaceCode_skip: "CHR 0x60 \<notin> set a \<Longrightarrow> replaceCode (a @ s) = a @ replaceCode s"
  by (induction a) auto

lemma replaceCode_safe: "safeMarkup s \<Longrightarrow> safeMarkup (replaceCode s)"
proof (induction "length s" arbitrary: s rule: less_induct)
  case less
  from less.prems show ?case
  proof (cases s rule: safeMarkup.cases)
    case Nil
    then show ?thesis by (simp add: safeMarkup.Nil)
  next
    case (Char c s')
    let ?g = "takeWhile (\<lambda>x. x \<noteq> CHR 0x60) s'"
    let ?r = "dropWhile (\<lambda>x. x \<noteq> CHR 0x60) s'"
    from Char have rec: "safeMarkup (replaceCode s')" using less.hyps [of s'] by simp
    show ?thesis
    proof (cases "c = CHR 0x60 \<and> ?g \<noteq> [] \<and> ?r \<noteq> []")
      case False
      with Char rec show ?thesis by (auto simp: safeMarkup.Char)
    next
      case True
      then have "hd ?r = CHR 0x60" using hd_dropWhile [of "\<lambda>x. x \<noteq> CHR 0x60" s'] by simp
      with True have r: "?r = CHR 0x60 # tl ?r" by (cases ?r) simp_all
      have "s' = ?g @ ?r" by simp
      with r have s': "s' = ?g @ CHR 0x60 # tl ?r" by metis
      have "delimiterChar (CHR 0x60)" by (simp add: delimiterChar_def)
      from safeMarkup_split1 [OF _ s' this] Char
      have g: "safeMarkup ?g" and t: "safeMarkup (tl ?r)" by simp_all
      have "length (tl ?r) < length s"
        using Char length_dropWhile_le [of "\<lambda>x. x \<noteq> CHR 0x60" s'] by simp
      with less.hyps [of "tl ?r"] t have "safeMarkup (replaceCode (tl ?r))" by simp
      then have "safeMarkup (''</code>'' @ replaceCode (tl ?r))"
        using safeMarkup.Tag [of "''</code>''" "replaceCode (tl ?r)"] by (simp add: markupTags_def)
      with g have "safeMarkup (?g @ ''</code>'' @ replaceCode (tl ?r))"
        by (rule safeMarkup_append)
      then have "safeMarkup (''<code>'' @ ?g @ ''</code>'' @ replaceCode (tl ?r))"
        using safeMarkup.Tag [of "''<code>''" "?g @ ''</code>'' @ replaceCode (tl ?r)"]
        by (simp add: markupTags_def)
      with True Char show ?thesis by simp
    qed
  next
    case (Tag t s')
    then have "t \<noteq> []" by (auto simp: markupTags_def)
    with Tag have rec: "safeMarkup (replaceCode s')" using less.hyps [of s'] by simp
    have "delimiterChar (CHR 0x60)" by (simp add: delimiterChar_def)
    with Tag have "CHR 0x60 \<notin> set t" by (simp add: delimiterChar_not_in_tag)
    with Tag rec show ?thesis by (simp add: replaceCode_skip safeMarkup.Tag)
  qed
qed

lemma replaceNewline_append: "replaceNewline (a @ b) = replaceNewline a @ replaceNewline b"
  by (simp add: replaceNewline_def)

lemma replaceNewline_id: "CHR 0x0A \<notin> set a \<Longrightarrow> replaceNewline a = a"
  by (induction a) (auto simp: replaceNewline_def)

lemma replaceNewline_safe: "safeMarkup s \<Longrightarrow> safeMarkup (replaceNewline s)"
proof (induction s rule: safeMarkup.induct)
  case Nil
  show ?case by (simp add: replaceNewline_def safeMarkup.Nil)
next
  case (Char c s)
  show ?case
  proof (cases "c = CHR 0x0A")
    case True
    have "safeMarkup (''<br>'' @ replaceNewline s)"
      using Char.IH safeMarkup.Tag [of "''<br>''" "replaceNewline s"] by (simp add: markupTags_def)
    with True show ?thesis using replaceNewline_append [of "[c]" s]
      by (simp add: replaceNewline_def)
  next
    case False
    with Char show ?thesis using replaceNewline_append [of "[c]" s]
      by (simp add: replaceNewline_def safeMarkup.Char)
  qed
next
  case (Tag t s)
  have "delimiterChar (CHR 0x0A)" by (simp add: delimiterChar_def)
  with Tag.hyps have "CHR 0x0A \<notin> set t" by (simp add: delimiterChar_not_in_tag)
  with Tag show ?case by (simp add: replaceNewline_append replaceNewline_id safeMarkup.Tag)
qed

text \<open>
  C10.  \<^verbatim>\<open>formatMessage\<close> escapes first: the bold, italic, code and newline substitutions
  are applied, in this order, to the escaped content, which holds no \<^verbatim>\<open><\<close> and no \<^verbatim>\<open>>\<close>.
  In the rendered message every \<^verbatim>\<open><\<close> and every \<^verbatim>\<open>>\<close> therefore belongs to one of the seven
  tags that the substitutions write: the characters of the content contribute no tag.
\<close>

theorem formatMessage_escapes_first:
  "formatMessage c
     = replaceNewline (replaceCode (replaceItalic (replaceBold (escapeHtml c))))
   \<and> CHR ''<'' \<notin> set (escapeHtml c) \<and> CHR ''>'' \<notin> set (escapeHtml c)
   \<and> safeMarkup (formatMessage c)"
proof -
  have "safeMarkup (escapeHtml c)"
    using escapeHtml_no_angle [of c] by (simp add: safeMarkup_plain)
  then have "safeMarkup (replaceBold (escapeHtml c))"
    unfolding replaceBold_def
    by (intro replaceDelimited_safe) (simp_all add: delimiterChar_def markupTags_def)
  then have "safeMarkup (replaceItalic (replaceBold (escapeHtml c)))"
    unfolding replaceItalic_def
    by (intro replaceDelimited_safe) (simp_all add: delimiterChar_def markupTags_def)
  then have "safeMarkup (formatMessage c)"
    unfolding formatMessage_def by (intro replaceNewline_safe replaceCode_safe)
  then show ?thesis using escapeHtml_no_angle [of c] by (simp add: formatMessage_def)
qed

theorem formatMessage_escapes_first_witness:
  "formatMessage ''<b>**x** *y* `z`'' = ''&lt;b&gt;<strong>x</strong> <em>y</em> <code>z</code>''
   \<and> safeMarkup ''&lt;b&gt;<strong>x</strong> <em>y</em> <code>z</code>''"
proof -
  have e: "formatMessage ''<b>**x** *y* `z`''
             = ''&lt;b&gt;<strong>x</strong> <em>y</em> <code>z</code>''"
    by (simp add: formatMessage_def escapeHtml_def replaceBold_def replaceItalic_def
        replaceNewline_def isLineTerminator_def)
  from formatMessage_escapes_first [of "''<b>**x** *y* `z`''"]
  have "safeMarkup (formatMessage ''<b>**x** *y* `z`'')" by blast
  with e show ?thesis by simp
qed

section \<open>Properties of the forms\<close>







lemmas parse_defs = parseInt_def parseFloat_def isWhiteSpace_def dropSign_def isDecimalDigit_def
  isRadixDigit_def digitOf_def digitsValue_def isNegative_def exponentPart_def scale10_def



lemma parseInt_empty: "parseInt [] = NaN"
  by (simp add: parseInt_def dropSign_def)

lemma parseFloat_empty: "parseFloat [] = NaN"
  by (simp add: parseFloat_def dropSign_def)

text \<open>
  C9.  At the forms, an entry in a number field that is no number (empty or not a valid
  floating-point number) reaches the change handler as the empty string and is replaced by
  a default without any validation error: \<^verbatim>\<open>top_k\<close> becomes 1 in the appeal analysis form and 5
  in the two search forms, \<^verbatim>\<open>min_score\<close> becomes 0.  These defaults are inside the valid
  ranges, so \<^verbatim>\<open>validateForm\<close> raises no error for the field, and the handler itself leaves no
  error on it.
\<close>

theorem non_numeric_input_defaults:
  assumes "\<not> validFloatingPointNumber entered"
  shows "numberInputValue entered = []
     \<and> top_k (changeField TopK (numberInputValue entered) fd) = Fin 1
     \<and> min_score (changeField MinScore (numberInputValue entered) fd) = Fin 0
     \<and> setTopK_onChange (numberInputValue entered) = Fin 5
     \<and> \<not> err_top_k (validateForm (changeField TopK (numberInputValue entered) fd))
     \<and> \<not> err_min_score (validateForm (changeField MinScore (numberInputValue entered) fd))
     \<and> \<not> err_top_k (errors (handleInputChange TopK (numberInputValue entered) st))
     \<and> \<not> err_min_score (errors (handleInputChange MinScore (numberInputValue entered) st))"
proof -
  from assms have v: "numberInputValue entered = []" by (simp add: numberInputValue_def)
  show ?thesis
    unfolding v
    by (simp add: parseInt_empty parseFloat_empty orElse_def setTopK_onChange_def
        validateForm_def js_gt_def handleInputChange_def)
qed

theorem non_numeric_input_defaults_witness:
  "\<not> validFloatingPointNumber ''12abc''
   \<and> top_k (changeField TopK (numberInputValue ''12abc'') initialFormData) = Fin 1
   \<and> min_score (changeField MinScore (numberInputValue ''12abc'') initialFormData) = Fin 0
   \<and> setTopK_onChange (numberInputValue ''12abc'') = Fin 5"
proof -
  have n: "\<not> validFloatingPointNumber ''12abc''"
    by (simp add: validFloatingPointNumber_def validExponent_def parse_defs Let_def)
  from non_numeric_input_defaults [OF n, of initialFormData] n show ?thesis by blast
qed

text \<open>
  C6.  For every text, bound and state of the expansion flags: a text within the bound is
  rendered in full, unmodified and without a button.  A longer text is rendered, as long as
  the user has not expanded the entry (no entry is expanded at the start), as exactly its
  first \<open>maxLength\<close> characters followed by the marker \<^verbatim>\<open>...\<close>; once expanded, the whole text
  is rendered.  So what is shown is the whole text or a cut that ends with the marker, never
  a silent cut.  The details of a request are cut at 500 in the same way.
\<close>

theorem renderExpandableText_excerpt:
  "(length txt \<le> maxLength \<longrightarrow>
      renderExpandableText expandedResponses txt appealId maxLength
        = \<lparr>shown = txt, button = None\<rparr>)
   \<and> (maxLength < length txt \<longrightarrow> \<not> isExpanded expandedResponses appealId \<longrightarrow>
        renderExpandableText expandedResponses txt appealId maxLength
          = \<lparr>shown = take maxLength txt @ ''...'', button = Some VerMais\<rparr>
        \<and> length (take maxLength txt) = maxLength)
   \<and> (maxLength < length txt \<longrightarrow> isExpanded expandedResponses appealId \<longrightarrow>
        renderExpandableText expandedResponses txt appealId maxLength
          = \<lparr>shown = txt, button = Some VerMenos\<rparr>)
   \<and> \<not> isExpanded Map.empty appealId
   \<and> (shown (renderExpandableText expandedResponses txt appealId maxLength) = txt
        \<or> shown (renderExpandableText expandedResponses txt appealId maxLength)
             = take maxLength txt @ ''...'')
   \<and> (renderDetails txt = (if length txt \<le> 500 then txt else take 500 txt @ ''...''))"
  by (auto simp: renderExpandableText_def isExpanded_def renderDetails_def Let_def)

theorem renderExpandableText_excerpt_witness:
  "renderExpandableText Map.empty ''Recurso indeferido'' ''response-7'' 7
     = \<lparr>shown = ''Recurso...'', button = Some VerMais\<rparr>
   \<and> renderExpandableText Map.empty ''Deferido'' ''response-8'' 300
     = \<lparr>shown = ''Deferido'', button = None\<rparr>
   \<and> renderExpandableText (toggleResponseExpansion ''response-7'' Map.empty)
        ''Recurso indeferido'' ''response-7'' 7
     = \<lparr>shown = ''Recurso indeferido'', button = Some VerMenos\<rparr>"
  using renderExpandableText_excerpt [of "''Recurso indeferido''" 7 Map.empty "''response-7''"]
    renderExpandableText_excerpt [of "''Deferido''" 300 Map.empty "''response-8''"]
    renderExpandableText_excerpt [of "''Recurso indeferido''" 7
      "toggleResponseExpansion ''response-7'' Map.empty" "''response-7''"]
  by (simp add: toggleResponseExpansion_def isExpanded_def)

text \<open>
  A longer text is not always rendered as its excerpt: after the user has expanded the entry
  the whole text is shown, without a marker.
\<close>

theorem renderExpandableText_expanded_counterexample:
  "7 < length ''Recurso indeferido''
   \<and> shown (renderExpandableText [''response-7'' \<mapsto> True] ''Recurso indeferido'' ''response-7'' 7)
       \<noteq> take 7 ''Recurso indeferido'' @ ''...''"
  by (simp add: renderExpandableText_def isExpanded_def)




section \<open>Properties of the retrieval core\<close>

lemma countLabel_total:
  "countLabel Granted hits + countLabel Denied hits + countLabel PartiallyGranted hits
     + countLabel NotKnown hits + countLabel Moot hits = length hits"
proof (induction hits)
  case Nil
  show ?case by (simp add: countLabel_def)
next
  case (Cons h hs)
  then show ?case
    by (cases "decision (hit_record h)") (simp_all add: countLabel_def)
qed

lemma sum_list_filter_pos:
  fixes f :: "'a \<Rightarrow> nat"
  shows "sum_list (map f (filter (\<lambda>x. f x > 0) xs)) = sum_list (map f xs)"
  by (induction xs) simp_all

lemma sum_list_percent:
  fixes f :: "'a \<Rightarrow> nat" and n :: rat
  shows "sum_list (map (\<lambda>l. 100 * of_nat (f l) / n) xs) = 100 * of_nat (sum_list (map f xs)) / n"
  by (induction xs) (simp_all add: add_divide_distrib distrib_left)

lemma percentages_sum:
  assumes "hits \<noteq> []"
  shows "sum_list (map (\<lambda>l. 100 * of_nat (countLabel l hits) / (of_nat (length hits) :: rat))
           (filter (\<lambda>l. countLabel l hits > 0) allDecisions)) = 100"
proof -
  let ?n = "of_nat (length hits) :: rat"
  let ?ls = "filter (\<lambda>l. countLabel l hits > 0) allDecisions"
  have n: "?n \<noteq> 0" using assms by simp
  have "sum_list (map (\<lambda>l. 100 * of_nat (countLabel l hits) / ?n) ?ls)
          = 100 * of_nat (sum_list (map (\<lambda>l. countLabel l hits) ?ls)) / ?n"
    by (rule sum_list_percent)
  also have "sum_list (map (\<lambda>l. countLabel l hits) ?ls)
          = sum_list (map (\<lambda>l. countLabel l hits) allDecisions)"
    by (rule sum_list_filter_pos)
  also have "\<dots> = length hits"
    using countLabel_total [of hits] by (simp add: allDecisions_def)
  finally show ?thesis using n by simp
qed

text \<open>
  C7.  For every non-empty list of appeal hits \<open>aggregate\<close> returns statistics: their labels
  are exactly the decision labels that occur among the hits (a label that does not occur is
  omitted), each with its count and the percentage \<open>100 * count / total\<close>; the percentages
  sum to 100, in particular within 0.1 of it.
\<close>

theorem aggregate_percentages:
  assumes "hits \<noteq> []"
  shows "\<exists>ds. aggregate hits = Inr ds
     \<and> map fst (stats ds) = filter (\<lambda>l. 0 < countLabel l hits) allDecisions
     \<and> (\<forall>(l, c, p) \<in> set (stats ds).
           c = countLabel l hits \<and> 0 < c \<and> p = 100 * of_nat c / of_nat (length hits))
     \<and> sum_list (percentages ds) = 100
     \<and> \<bar>sum_list (percentages ds) - 100\<bar> \<le> 1 / 10"
proof -
  let ?ds = "\<lparr>stats =
           map (\<lambda>l. (l, countLabel l hits, 100 * of_nat (countLabel l hits) / of_nat (length hits)))
             (filter (\<lambda>l. countLabel l hits > 0) allDecisions),
         predictedLabel = mostFrequent hits\<rparr>"
  have a: "aggregate hits = Inr ?ds" using assms by (simp add: aggregate_def)
  have b: "map fst (stats ?ds) = filter (\<lambda>l. 0 < countLabel l hits) allDecisions"
    by (simp add: comp_def)
  have c: "\<forall>(l, c, p) \<in> set (stats ?ds).
           c = countLabel l hits \<and> 0 < c \<and> p = 100 * of_nat c / of_nat (length hits)"
    by auto
  have d: "sum_list (percentages ?ds) = 100"
    using percentages_sum [OF assms] by (simp add: percentages_def comp_def)
  from a b c d show ?thesis by (intro exI [of _ ?ds]) simp
qed

theorem aggregate_percentages_witness:
  "aggregate scenarioA
     = Inr \<lparr>stats = [(Granted, 1, 100 / 3), (Denied, 2, 200 / 3)], predictedLabel = Denied\<rparr>
   \<and> sum_list (percentages
         \<lparr>stats = [(Granted, 1, 100 / 3), (Denied, 2, 200 / 3)], predictedLabel = Denied\<rparr>) = 100"
proof -
  have e: "aggregate scenarioA
     = Inr \<lparr>stats = [(Granted, 1, 100 / 3), (Denied, 2, 200 / 3)], predictedLabel = Denied\<rparr>"
    by (simp add: aggregate_def scenarioA_def appealHit_def countLabel_def allDecisions_def
        mostFrequent_def)
  have "scenarioA \<noteq> []" by (simp add: scenarioA_def)
  from aggregate_percentages [OF this] obtain ds
    where "aggregate scenarioA = Inr ds" and "sum_list (percentages ds) = 100" by blast
  with e show ?thesis by simp
qed

lemma crossReference_subset:
  "set (crossReference j k)
     \<subseteq> set (filter (\<lambda>(c, as). as \<noteq> [])
              (map (\<lambda>c. (c, linkedAppeals j (hit_record c)))
                 (searchRequests j (widen j * k) (moderateMinScore j))))"
  using set_take_subset
    [of k "sort_key (\<lambda>(c, as). - combinedScore j c as)
             (filter (\<lambda>(c, as). as \<noteq> [])
                (map (\<lambda>c. (c, linkedAppeals j (hit_record c)))
                   (searchRequests j (widen j * k) (moderateMinScore j))))"]
  by (simp add: crossReference_def Let_def)

lemma crossReference_member:
  assumes "(c, as) \<in> set (crossReference j k)"
  shows "as \<noteq> []" and "as = linkedAppeals j (hit_record c)"
    and "c \<in> set (searchRequests j (widen j * k) (moderateMinScore j))"
  using assms crossReference_subset [of j k] by auto

lemma linkedAppeals_explicit:
  "explicitLinks j \<Longrightarrow> a \<in> set (linkedAppeals j r)
   \<Longrightarrow> a \<in> set (appeals j) \<and> relatedProtocol (hit_record a) = Some (protocol r)"
  by (simp add: linkedAppeals_def)

text \<open>
  C8.  Every pair of a cross-reference result holds a request of the candidate set together
  with the appeals linked to it, and this list is never empty: a request appears only with at
  least one correlated appeal (under explicit links, appeals of the index whose
  \<open>relatedProtocol\<close> is the protocol of the request).  The result is the part of the
  candidates that has a partner in the other corpus, at most \<open>topK\<close> pairs.
\<close>

theorem crossReference_joined:
  "(\<forall>(c, as) \<in> set (crossReference j k).
       as \<noteq> [] \<and> as = linkedAppeals j (hit_record c)
       \<and> c \<in> set (searchRequests j (widen j * k) (moderateMinScore j))
       \<and> (explicitLinks j \<longrightarrow>
            (\<forall>a \<in> set as. a \<in> set (appeals j)
                \<and> relatedProtocol (hit_record a) = Some (protocol (hit_record c)))))
   \<and> length (crossReference j k) \<le> k"
proof (intro conjI ballI)
  fix p assume p: "p \<in> set (crossReference j k)"
  obtain c as where ca: "p = (c, as)" by (cases p)
  from p ca crossReference_member [of c as j k]
  have m: "as \<noteq> []" "as = linkedAppeals j (hit_record c)"
    "c \<in> set (searchRequests j (widen j * k) (moderateMinScore j))" by simp_all
  have "explicitLinks j \<longrightarrow>
            (\<forall>a \<in> set as. a \<in> set (appeals j)
                \<and> relatedProtocol (hit_record a) = Some (protocol (hit_record c)))"
    using m(2) linkedAppeals_explicit [of j _ "hit_record c"] by simp
  with m ca show "case p of (c, as) \<Rightarrow>
       as \<noteq> [] \<and> as = linkedAppeals j (hit_record c)
       \<and> c \<in> set (searchRequests j (widen j * k) (moderateMinScore j))
       \<and> (explicitLinks j \<longrightarrow>
            (\<forall>a \<in> set as. a \<in> set (appeals j)
                \<and> relatedProtocol (hit_record a) = Some (protocol (hit_record c))))"
    by simp
next
  show "length (crossReference j k) \<le> k" by (simp add: crossReference_def Let_def)
qed

theorem crossReference_joined_witness:
  "crossReference scenarioJoiner 5
     = [(requestHit 2 ''222'' (8 / 10), [appealHit 7 Denied (Some ''222'') (6 / 10)])]
   \<and> linkedAppeals scenarioJoiner (hit_record (requestHit 2 ''222'' (8 / 10)))
       = [appealHit 7 Denied (Some ''222'') (6 / 10)]
   \<and> explicitLinks scenarioJoiner"
proof -
  have v: "crossReference scenarioJoiner 5
     = [(requestHit 2 ''222'' (8 / 10), [appealHit 7 Denied (Some ''222'') (6 / 10)])]"
    by (simp add: crossReference_def scenarioJoiner_def linkedAppeals_def requestHit_def
        appealHit_def Let_def)
  then have mem: "(requestHit 2 ''222'' (8 / 10), [appealHit 7 Denied (Some ''222'') (6 / 10)])
      \<in> set (crossReference scenarioJoiner 5)" by simp
  from crossReference_joined [of scenarioJoiner 5]
  have "\<forall>(c, as) \<in> set (crossReference scenarioJoiner 5).
       as \<noteq> [] \<and> as = linkedAppeals scenarioJoiner (hit_record c)
       \<and> c \<in> set (searchRequests scenarioJoiner (widen scenarioJoiner * 5) (moderateMinScore scenarioJoiner))
       \<and> (explicitLinks scenarioJoiner \<longrightarrow>
            (\<forall>a \<in> set as. a \<in> set (appeals scenarioJoiner)
                \<and> relatedProtocol (hit_record a) = Some (protocol (hit_record c))))"
    by (rule conjunct1)
  from bspec [OF this mem]
  have "[appealHit 7 Denied (Some ''222'') (6 / 10)]
          = linkedAppeals scenarioJoiner (hit_record (requestHit 2 ''222'' (8 / 10)))"
    by (simp only: prod.case)
  moreover have "explicitLinks scenarioJoiner" by (simp add: scenarioJoiner_def)
  ultimately show ?thesis using v by simp
qed

end
